theory Spec2Isabelle
  imports Main "HOL-Library.Word"
begin

section \<open>C strings in fixed-size buffers\<close>

text \<open>
  Both sketches exchange text through \<open>char\<close> arrays of \<open>I2C_BUF\<close> bytes. A buffer is
  a list of bytes; the C string it holds is the run of bytes before the first NUL.
\<close>

definition I2C_BUF :: nat where
  "I2C_BUF = 32"

definition NUL :: char where
  "NUL = CHR 0x00"

definition cstr :: "char list \<Rightarrow> string" where
  "cstr buf = takeWhile (\<lambda>c. c \<noteq> NUL) buf"

definition strlen :: "char list \<Rightarrow> nat" where
  "strlen buf = length (cstr buf)"

text \<open>\<open>strcmp(buf, lit) == 0\<close> and \<open>strncmp(buf, lit, n) == 0\<close> for a literal without NUL.\<close>

definition strcmp_eq :: "char list \<Rightarrow> string \<Rightarrow> bool" where
  "strcmp_eq buf lit = (cstr buf = lit)"

definition strncmp_eq :: "char list \<Rightarrow> string \<Rightarrow> nat \<Rightarrow> bool" where
  "strncmp_eq buf lit n = (take n (cstr buf) = take n lit)"

text \<open>\<open>strcpy(dst, lit)\<close>: the literal and its terminator overwrite the front of \<open>dst\<close>.\<close>

definition strcpy :: "char list \<Rightarrow> string \<Rightarrow> char list" where
  "strcpy dst lit = lit @ NUL # drop (Suc (length lit)) dst"

text \<open>\<open>strncpy(dst, src, n)\<close>: exactly \<open>n\<close> bytes are written, NUL-padded when the
  source string is shorter, with no terminator when it is not.\<close>

definition strncpy :: "char list \<Rightarrow> char list \<Rightarrow> nat \<Rightarrow> char list" where
  "strncpy dst src n =
     (let t = take n (cstr src) in t @ replicate (n - length t) NUL @ drop n dst)"

text \<open>\<open>strncat(dst, lit, n)\<close>: at most \<open>n\<close> bytes of the literal, then a terminator,
  are written where the string in \<open>dst\<close> ends.\<close>

definition strncat :: "char list \<Rightarrow> string \<Rightarrow> nat \<Rightarrow> char list" where
  "strncat dst lit n =
     (let d = cstr dst; a = take n lit
      in d @ a @ NUL # drop (Suc (length d + length a)) dst)"

text \<open>\<open>snprintf(dst, n, ...)\<close> with the fully formatted text given: at most \<open>n - 1\<close>
  bytes of it are stored, then a terminator.\<close>

definition snprintf :: "char list \<Rightarrow> nat \<Rightarrow> string \<Rightarrow> char list" where
  "snprintf dst n txt =
     (if n = 0 then dst
      else (let t = take (n - 1) txt in t @ NUL # drop (Suc (length t)) dst))"

definition memset :: "char list \<Rightarrow> char \<Rightarrow> nat \<Rightarrow> char list" where
  "memset dst c n = replicate n c @ drop n dst"

text \<open>\<open>Wire.write(buf, n)\<close> queues the first \<open>n\<close> bytes of the buffer for the master.\<close>

definition Wire_write :: "char list \<Rightarrow> nat \<Rightarrow> char list" where
  "Wire_write buf n = take n buf"

section \<open>Decimal text: \<open>%d\<close> and \<open>atoi\<close>\<close>

definition isdigit :: "char \<Rightarrow> bool" where
  "isdigit c = (48 \<le> (of_char c :: nat) \<and> (of_char c :: nat) \<le> 57)"

definition isspace :: "char \<Rightarrow> bool" where
  "isspace c = (c = CHR '' '' \<or> (9 \<le> (of_char c :: nat) \<and> (of_char c :: nat) \<le> 13))"

definition digit_val :: "char \<Rightarrow> nat" where
  "digit_val c = of_char c - 48"

definition digit_char :: "nat \<Rightarrow> char" where
  "digit_char d = ''0123456789'' ! d"

function dec_nat :: "nat \<Rightarrow> string" where
  "dec_nat n = (if n < 10 then [digit_char n] else dec_nat (n div 10) @ [digit_char (n mod 10)])"
  by pat_completeness auto
termination
  by (relation "measure id") auto

declare dec_nat.simps [simp del]

text \<open>What \<open>%d\<close> prints for a signed value.\<close>

definition dec :: "int \<Rightarrow> string" where
  "dec i = (if i < 0 then CHR ''-'' # dec_nat (nat (- i)) else dec_nat (nat i))"

text \<open>
  The actuator runs on an Arduino UNO, where \<open>int\<close> has 16 bits. Its \<open>atoi\<close> skips
  leading white space, takes an optional sign and then accumulates digits in a 16-bit
  register with no overflow detection, stopping at the first byte that is not a digit.
  The argument is the rest of a buffer from some offset on; the end of the list is
  treated like a terminator, and the buffers scanned here always hold a NUL before it.
\<close>

fun atoi_digits :: "16 word \<Rightarrow> char list \<Rightarrow> 16 word" where
  "atoi_digits acc [] = acc"
| "atoi_digits acc (c # cs) =
     (if isdigit c then atoi_digits (acc * 10 + of_nat (digit_val c)) cs else acc)"

fun atoi :: "char list \<Rightarrow> 16 word" where
  "atoi [] = 0"
| "atoi (c # cs) =
     (if isspace c then atoi cs
      else if c = CHR ''-'' then - atoi_digits 0 cs
      else if c = CHR ''+'' then atoi_digits 0 cs
      else atoi_digits 0 (c # cs))"

text \<open>The Arduino macro \<open>constrain(amt, low, high)\<close> on signed 16-bit values.\<close>

definition constrain :: "16 word \<Rightarrow> 16 word \<Rightarrow> 16 word \<Rightarrow> 16 word" where
  "constrain amt low high =
     (if amt <s low then low else if high <s amt then high else amt)"

section \<open>The actuator board (Executor.ino)\<close>

text \<open>
  The globals of the sketch, the static \<open>lastState\<close> of \<open>handleButton\<close>, and the last
  values driven onto the servo, the relay pin and the stepper (newest first).
\<close>

record executor =
  cmdReady :: bool
  i2cCmd :: "char list"
  i2cResp :: "char list"
  servoPos :: "16 word"
  stepperPos :: "16 word"
  relayState :: bool
  btnEvent :: bool
  lastState :: bool
  servoOut :: "16 word"
  relayPin :: bool
  stepperOut :: "16 word list"

text \<open>The state once the globals are initialised and \<open>setup()\<close> has run.\<close>

definition after_setup :: executor where
  "after_setup = \<lparr> cmdReady = False,
             i2cCmd = replicate I2C_BUF NUL,
             i2cResp = ''READY'' @ replicate (I2C_BUF - 5) NUL,
             servoPos = 90, stepperPos = 0, relayState = False, btnEvent = False,
             lastState = True, servoOut = 90, relayPin = False, stepperOut = [] \<rparr>"

text \<open>
  \<open>onI2CReceive\<close>: the loop copies bytes while any are available and \<open>i < I2C_BUF - 1\<close>.
  A store outside the array is the result \<open>None\<close>.
\<close>

fun recv_loop :: "char list \<Rightarrow> nat \<Rightarrow> char list \<Rightarrow> (char list \<times> nat) option" where
  "recv_loop [] i buf = Some (buf, i)"
| "recv_loop (b # bs) i buf =
     (if i < I2C_BUF - 1
      then (if i < length buf then recv_loop bs (Suc i) (buf[i := b]) else None)
      else Some (buf, i))"

definition onI2CReceive :: "char list \<Rightarrow> executor \<Rightarrow> executor option" where
  "onI2CReceive bytes s =
     (case recv_loop bytes 0 (i2cCmd s) of
        None \<Rightarrow> None
      | Some (buf, i) \<Rightarrow>
          if i < length buf then Some (s\<lparr>i2cCmd := buf[i := NUL], cmdReady := True\<rparr>)
          else None)"

text \<open>
  \<open>onI2CRequest\<close>: \<open>tmp\<close> is the uninitialised local array \<open>tmpResp\<close>. The result is the
  byte sequence handed to \<open>Wire.write\<close> and the state afterwards.
\<close>

definition onI2CRequest :: "char list \<Rightarrow> executor \<Rightarrow> char list \<times> executor" where
  "onI2CRequest tmp s =
     (let tmp1 = (strncpy tmp (i2cResp s) (I2C_BUF - 1))[I2C_BUF - 1 := NUL]
      in if btnEvent s
         then (let tmp2 = strncat tmp1 '' +BTN PRESSED'' (I2C_BUF - strlen tmp1 - 1)
               in (Wire_write tmp2 (strlen tmp2 + 1), s\<lparr>btnEvent := False\<rparr>))
         else (Wire_write tmp1 (strlen tmp1 + 1), s))"

definition status_text :: "executor \<Rightarrow> string" where
  "status_text s =
     ''SERVO='' @ dec (sint (servoPos s)) @ '' RELAY='' @
     (if relayState s then ''ON'' else ''OFF'') @ '' STEPPER='' @ dec (sint (stepperPos s))"

definition handleCommand :: "executor \<Rightarrow> executor" where
  "handleCommand s =
     (if strncmp_eq (i2cCmd s) ''SERVO SET'' 9 then
        (let pos = constrain (atoi (drop 10 (i2cCmd s))) 0 180
         in s\<lparr>servoPos := pos, servoOut := pos,
               i2cResp := strcpy (i2cResp s) ''OK SERVO''\<rparr>)
      else if strncmp_eq (i2cCmd s) ''STEPPER MOVE'' 12 then
        (let steps = atoi (drop 13 (i2cCmd s))
         in s\<lparr>stepperOut := steps # stepperOut s,
               stepperPos := stepperPos s + steps,
               i2cResp := strcpy (strcpy (i2cResp s) ''STEPPER BUSY'') ''OK STEPPER''\<rparr>)
      else if strcmp_eq (i2cCmd s) ''RELAY ON'' then
        s\<lparr>relayPin := True, relayState := True,
          i2cResp := strcpy (i2cResp s) ''OK RELAY ON''\<rparr>
      else if strcmp_eq (i2cCmd s) ''RELAY OFF'' then
        s\<lparr>relayPin := False, relayState := False,
          i2cResp := strcpy (i2cResp s) ''OK RELAY OFF''\<rparr>
      else if strcmp_eq (i2cCmd s) ''STATUS'' then
        s\<lparr>i2cResp := snprintf (i2cResp s) I2C_BUF (status_text s)\<rparr>
      else
        s\<lparr>i2cResp := strcpy (i2cResp s) ''ERR CMD''\<rparr>)"

text \<open>\<open>handleButton\<close>: \<open>pin\<close> is what \<open>digitalRead(BUTTON_PIN)\<close> returns (HIGH is True).\<close>

definition handleButton :: "bool \<Rightarrow> executor \<Rightarrow> executor" where
  "handleButton pin s =
     (if lastState s \<and> \<not> pin then s\<lparr>btnEvent := True, lastState := pin\<rparr>
      else s\<lparr>lastState := pin\<rparr>)"

definition loop :: "bool \<Rightarrow> executor \<Rightarrow> executor" where
  "loop pin s =
     handleButton pin (if cmdReady s then handleCommand (s\<lparr>cmdReady := False\<rparr>) else s)"

text \<open>One command: the master's write arrives, then the main loop runs once.\<close>

definition i2c_command :: "string \<Rightarrow> bool \<Rightarrow> executor \<Rightarrow> executor option" where
  "i2c_command bytes pin s = map_option (loop pin) (onI2CReceive bytes s)"

section \<open>The sensor hub (SensorsWeb.ino)\<close>

text \<open>
  The ESP32 has 32-bit \<open>int\<close> and \<open>unsigned long\<close>. The type \<open>'f\<close> stands for
  \<open>float\<close>; the two things the sketch does with a float, testing \<open>isnan\<close> and
  printing with \<open>%.1f\<close>, are parameters of the functions that use them.
\<close>

record 'f SensorData =
  temp :: 'f
  hum :: 'f
  photo :: "32 word"
  lastClapMs :: "32 word"

text \<open>
  One iteration of \<open>SensorTask\<close>: \<open>h\<close>, \<open>t\<close> and \<open>p\<close> are the values returned by
  \<open>readHumidity\<close>, \<open>readTemperature\<close> and \<open>analogRead\<close>.
\<close>

definition SensorTask :: "('f \<Rightarrow> bool) \<Rightarrow> 'f \<Rightarrow> 'f \<Rightarrow> 32 word \<Rightarrow> 'f SensorData \<Rightarrow> 'f SensorData" where
  "SensorTask isnan h t p d =
     (if \<not> isnan h \<and> \<not> isnan t then d\<lparr>temp := t, hum := h, photo := p\<rparr> else d)"

text \<open>
  The local \<open>clapSec\<close> of \<open>onI2CRequest\<close>: the unsigned difference of the two tick
  counts is divided by 1000, stored in an \<open>int\<close> and compared as a signed value.
\<close>

definition clapSec :: "32 word \<Rightarrow> 32 word \<Rightarrow> 32 word" where
  "clapSec now lastClap =
     (if 0 < lastClap
      then (let c = (now - lastClap) div 1000 in if 1000 \<le>s c then - 1 else c)
      else - 1)"

definition sensor_text :: "('f \<Rightarrow> string) \<Rightarrow> 32 word \<Rightarrow> 'f SensorData \<Rightarrow> string" where
  "sensor_text fmt1 now d =
     ''T='' @ fmt1 (temp d) @ '' H='' @ fmt1 (hum d) @ '' P='' @ dec (sint (photo d)) @
     '' C='' @ dec (sint (clapSec now (lastClapMs d)))"

text \<open>
  \<open>onI2CRequest\<close> of the hub: \<open>now\<close> is \<open>millis()\<close>, \<open>resp\<close> the global \<open>i2cResp\<close>.
  The result is the byte sequence handed to \<open>Wire.write\<close> and the buffer afterwards.
\<close>

definition onI2CRequest_hub ::
  "('f \<Rightarrow> string) \<Rightarrow> 32 word \<Rightarrow> 'f SensorData \<Rightarrow> char list \<Rightarrow> char list \<times> char list" where
  "onI2CRequest_hub fmt1 now d resp =
     (let r = snprintf (memset resp NUL I2C_BUF) I2C_BUF (sensor_text fmt1 now d)
      in (Wire_write r I2C_BUF, r))"

section \<open>Buffers and the receive handler\<close>

lemma cstr_append_NUL: "NUL \<notin> set xs \<Longrightarrow> cstr (xs @ NUL # ys) = xs"
  by (induction xs) (auto simp: cstr_def)

lemma cstr_no_NUL: "NUL \<notin> set (cstr buf)"
  by (induction buf) (auto simp: cstr_def)

lemma cstr_strcpy: "NUL \<notin> set lit \<Longrightarrow> cstr (strcpy dst lit) = lit"
  by (simp add: strcpy_def cstr_append_NUL)

lemma cstr_snprintf:
  "0 < n \<Longrightarrow> NUL \<notin> set txt \<Longrightarrow> cstr (snprintf dst n txt) = take (n - 1) txt"
proof -
  assume n: "0 < n" and t: "NUL \<notin> set txt"
  have "NUL \<notin> set (take (n - 1) txt)" using t by (auto dest: in_set_takeD)
  then show ?thesis using n by (simp add: snprintf_def Let_def cstr_append_NUL)
qed

lemma recv_loop_split:
  "length pre = i \<Longrightarrow> i + length suf = I2C_BUF \<Longrightarrow> i \<le> I2C_BUF - 1 \<Longrightarrow>
   recv_loop bs i (pre @ suf) =
     Some (pre @ take (I2C_BUF - 1 - i) bs @ drop (min (I2C_BUF - 1 - i) (length bs)) suf,
           i + min (I2C_BUF - 1 - i) (length bs))"
proof (induction bs arbitrary: i pre suf)
  case Nil
  then show ?case by simp
next
  case (Cons b bs)
  show ?case
  proof (cases "i < I2C_BUF - 1")
    case False
    with Cons.prems show ?thesis by simp
  next
    case True
    with Cons.prems obtain x suf' where suf: "suf = x # suf'"
      by (cases suf) auto
    have upd: "(pre @ suf)[i := b] = (pre @ [b]) @ suf'"
      using Cons.prems(1) suf by (simp add: list_update_append)
    have step: "recv_loop (b # bs) i (pre @ suf) = recv_loop bs (Suc i) ((pre @ [b]) @ suf')"
      using True Cons.prems suf upd by simp
    have sub: "I2C_BUF - 1 - i = Suc (I2C_BUF - 1 - Suc i)" using True by simp
    have ih: "recv_loop bs (Suc i) ((pre @ [b]) @ suf') =
        Some ((pre @ [b]) @ take (I2C_BUF - 1 - Suc i) bs
                @ drop (min (I2C_BUF - 1 - Suc i) (length bs)) suf',
              Suc i + min (I2C_BUF - 1 - Suc i) (length bs))"
      using Cons.prems suf True by (intro Cons.IH) auto
    show ?thesis
      unfolding step ih sub by (simp add: suf)
  qed
qed

lemma update_at_join:
  "length xs = k \<Longrightarrow> ys \<noteq> [] \<Longrightarrow> (xs @ ys)[k := v] = xs @ v # tl ys"
  by (cases ys) (simp_all add: list_update_append)

lemma onI2CReceive_eq:
  assumes "length (i2cCmd s) = I2C_BUF"
  shows "onI2CReceive bs s =
     Some (s\<lparr>i2cCmd := take (I2C_BUF - 1) bs @ NUL # drop (Suc (min (I2C_BUF - 1) (length bs))) (i2cCmd s),
             cmdReady := True\<rparr>)"
proof -
  let ?k = "min (I2C_BUF - 1) (length bs)"
  let ?buf = "take (I2C_BUF - 1) bs @ drop ?k (i2cCmd s)"
  have r: "recv_loop bs 0 (i2cCmd s) = Some (?buf, ?k)"
    using recv_loop_split[of "[]" 0 "i2cCmd s" bs] assms by simp
  have ne: "drop ?k (i2cCmd s) \<noteq> []" using assms by (simp add: I2C_BUF_def)
  have k: "?k < length ?buf" using assms by (simp add: I2C_BUF_def)
  have lt: "length (take (I2C_BUF - 1) bs) = ?k" by simp
  have upd: "?buf[?k := NUL] = take (I2C_BUF - 1) bs @ NUL # drop (Suc ?k) (i2cCmd s)"
    unfolding update_at_join[OF lt ne] by (simp add: drop_Suc tl_drop)
  show ?thesis
    by (simp only: onI2CReceive_def r option.case prod.case k if_True upd)
qed

text \<open>
  The last byte of the command buffer is NUL at start-up and stays NUL, so the scans that
  \<open>handleCommand\<close> starts at offsets 10 and 13 always meet a terminator inside the array.
\<close>

lemma onI2CReceive_keeps_last:
  assumes "length (i2cCmd s) = I2C_BUF" and "last (i2cCmd s) = NUL"
    and "onI2CReceive bs s = Some s'"
  shows "length (i2cCmd s') = I2C_BUF \<and> last (i2cCmd s') = NUL"
proof -
  define k where "k = min (I2C_BUF - 1) (length bs)"
  have i: "i2cCmd s' = take (I2C_BUF - 1) bs @ NUL # drop (Suc k) (i2cCmd s)"
    using assms(3) unfolding onI2CReceive_eq[OF assms(1)] k_def by auto
  have l: "length (i2cCmd s') = I2C_BUF"
    unfolding i using assms(1) by (simp add: k_def I2C_BUF_def)
  have "last (NUL # drop (Suc k) (i2cCmd s)) = NUL"
  proof (cases "Suc k < length (i2cCmd s)")
    case True
    then show ?thesis using assms(2) by (simp add: last_drop)
  next
    case False
    then show ?thesis by simp
  qed
  then have "last (i2cCmd s') = NUL" unfolding i by simp
  with l show ?thesis by simp
qed

lemma after_setup_last: "length (i2cCmd after_setup) = I2C_BUF \<and> last (i2cCmd after_setup) = NUL"
  by (simp add: after_setup_def I2C_BUF_def)

section \<open>Decimal text and 16-bit arithmetic\<close>

lemma isdigit_digit_char: "d < 10 \<Longrightarrow> digit_val (digit_char d) = d \<and> isdigit (digit_char d)"
proof -
  assume "d < 10"
  then have "d \<in> {0,1,2,3,4,5,6,7,8,9}" by auto
  then show ?thesis by (auto simp: digit_val_def digit_char_def isdigit_def)
qed

lemma isdigit_props:
  "isdigit c \<Longrightarrow> c \<noteq> NUL \<and> c \<noteq> CHR ''-'' \<and> c \<noteq> CHR ''+'' \<and> \<not> isspace c"
  by (auto simp: isdigit_def NUL_def isspace_def)

lemma dec_nat_digits: "c \<in> set (dec_nat n) \<Longrightarrow> isdigit c"
proof (induction n arbitrary: c rule: dec_nat.induct)
  case (1 n)
  show ?case
  proof (cases "n < 10")
    case True
    with "1.prems" show ?thesis
      by (simp add: dec_nat.simps[of n] isdigit_digit_char)
  next
    case False
    with "1.prems" "1.IH" show ?thesis
      by (auto simp: dec_nat.simps[of n] isdigit_digit_char)
  qed
qed

lemma dec_nat_nonempty: "dec_nat n \<noteq> []"
  by (subst dec_nat.simps) simp

lemma atoi_digits_dec_nat:
  "atoi_digits 0 (dec_nat n @ r) = atoi_digits (of_nat n) r"
proof (induction n arbitrary: r rule: dec_nat.induct)
  case (1 n)
  show ?case
  proof (cases "n < 10")
    case True
    then show ?thesis
      by (simp add: dec_nat.simps[of n] isdigit_digit_char)
  next
    case False
    have d: "n mod 10 < 10" by simp
    have "atoi_digits 0 (dec_nat n @ r)
            = atoi_digits 0 (dec_nat (n div 10) @ (digit_char (n mod 10) # r))"
      using False by (simp add: dec_nat.simps[of n])
    also have "\<dots> = atoi_digits (of_nat (n div 10)) (digit_char (n mod 10) # r)"
      using False by (rule "1.IH")
    also have "\<dots> = atoi_digits (of_nat (n div 10) * 10 + of_nat (n mod 10)) r"
      using isdigit_digit_char[OF d] by simp
    also have "of_nat (n div 10) * 10 + of_nat (n mod 10) = (of_nat (n div 10 * 10 + n mod 10) :: 16 word)"
      by (simp only: of_nat_add of_nat_mult of_nat_numeral)
    also have "n div 10 * 10 + n mod 10 = n" by simp
    finally show ?thesis .
  qed
qed

lemma atoi_dec:
  assumes "r = [] \<or> \<not> isdigit (hd r)"
  shows "atoi (dec i @ r) = word_of_int i"
proof -
  have stop: "\<And>a. atoi_digits a r = a" using assms by (cases r) auto
  show ?thesis
  proof (cases "i < 0")
    case True
    have "CHR ''-'' \<noteq> CHR '' ''" by simp
    then have "atoi (dec i @ r) = - atoi_digits 0 (dec_nat (nat (- i)) @ r)"
      using True by (simp add: dec_def isspace_def)
    also have "\<dots> = - of_nat (nat (- i))" by (simp add: atoi_digits_dec_nat stop)
    also have "\<dots> = word_of_int i" using True by simp
    finally show ?thesis .
  next
    case False
    obtain c cs where cc: "dec_nat (nat i) = c # cs"
      using dec_nat_nonempty by (cases "dec_nat (nat i)") auto
    then have "isdigit c" using dec_nat_digits[of c "nat i"] by simp
    then have "atoi ((c # cs) @ r) = atoi_digits 0 ((c # cs) @ r)"
      using isdigit_props[of c] by simp
    then have "atoi (dec i @ r) = atoi_digits 0 (dec_nat (nat i) @ r)"
      using False cc by (simp add: dec_def)
    also have "\<dots> = of_nat (nat i)" by (simp add: atoi_digits_dec_nat stop)
    also have "\<dots> = word_of_int i" using False by simp
    finally show ?thesis .
  qed
qed

lemma dec_no_NUL: "NUL \<notin> set (dec i)"
  using dec_nat_digits isdigit_props by (auto simp: dec_def NUL_def)

lemma sint16: "- 32768 \<le> i \<Longrightarrow> i \<le> 32767 \<Longrightarrow> sint (word_of_int i :: 16 word) = i"
  by (simp add: sint_sbintrunc' signed_take_bit_int_eq_self)

lemma constrain_sint: "sint (constrain w 0 180) = max 0 (min 180 (sint w))"
  by (auto simp: constrain_def word_sless_alt)

lemma dec_nat_len3: "n < 1000 \<Longrightarrow> length (dec_nat n) \<le> 3"
  by (simp add: dec_nat.simps[of n] dec_nat.simps[of "n div 10"] dec_nat.simps[of "n div 10 div 10"])

lemma clap_small:
  fixes x :: "32 word"
  shows "sint (x div 1000) = int (unat x div 1000)"
proof -
  have ux: "uint x < 4294967296" using uint_lt2p[of x] by simp
  have "0 \<le> uint x" by simp
  with ux have b: "0 \<le> uint x div 1000 \<and> uint x div 1000 < 2147483648" by arith
  have "sint (x div 1000) = signed_take_bit 31 (uint x div 1000)"
    by (simp add: sint_uint uint_div)
  also have "\<dots> = uint x div 1000"
    using b by (intro signed_take_bit_int_eq_self) simp_all
  also have "\<dots> = int (unat x div 1000)"
    by (simp add: zdiv_int)
  finally show ?thesis .
qed

section \<open>What the actuator writes on a read request\<close>

lemma cstr_id: "NUL \<notin> set t \<Longrightarrow> cstr t = t"
  by (induction t) (auto simp: cstr_def)

lemma cstr_stop: "NUL \<notin> set t \<Longrightarrow> r = [] \<or> hd r = NUL \<Longrightarrow> cstr (t @ r) = t"
  by (cases r) (auto simp: cstr_append_NUL cstr_id)

lemma cstr_take_no_NUL: "NUL \<notin> set (take n (cstr src))"
  using cstr_no_NUL[of src] by (auto dest: in_set_takeD)

lemma take_terminated: "length t = k \<Longrightarrow> take (k + 1) (t @ NUL # r) = t @ [NUL]"
  by simp

lemma strncpy_terminated:
  "\<exists>r. (strncpy tmp src n)[n := NUL] = take n (cstr src) @ r \<and> (r = [] \<or> hd r = NUL) \<and>
       (n < length tmp \<or> length (cstr src) < n \<longrightarrow> r \<noteq> [])"
proof -
  define t where "t = take n (cstr src)"
  define k where "k = n - length t"
  have tl: "length t \<le> n" and ts: "length (cstr src) < n \<Longrightarrow> length t < n"
    by (simp_all add: t_def)
  have lp: "length (t @ replicate k NUL) = n" using tl by (simp add: k_def)
  have eq: "(strncpy tmp src n)[n := NUL] = t @ (replicate k NUL @ (drop n tmp)[0 := NUL])"
    using list_update_append[of "t @ replicate k NUL" "drop n tmp" n NUL] lp
    by (simp add: strncpy_def Let_def t_def[symmetric] k_def[symmetric])
  have h: "replicate k NUL @ (drop n tmp)[0 := NUL] = []
        \<or> hd (replicate k NUL @ (drop n tmp)[0 := NUL]) = NUL"
    by (cases k; cases "drop n tmp") simp_all
  have ne: "n < length tmp \<or> length (cstr src) < n
        \<longrightarrow> replicate k NUL @ (drop n tmp)[0 := NUL] \<noteq> []"
    using ts by (auto simp: k_def)
  show ?thesis
    using eq h ne unfolding t_def by blast
qed

lemma tmpResp_cstr: "cstr ((strncpy tmp src n)[n := NUL]) = take n (cstr src)"
  using strncpy_terminated[of tmp src n] cstr_stop[OF cstr_take_no_NUL] by metis

lemma tmpResp_shape:
  assumes "n < length tmp \<or> length (cstr src) < n"
  shows "\<exists>r. (strncpy tmp src n)[n := NUL] = take n (cstr src) @ NUL # r"
proof -
  obtain r where r: "(strncpy tmp src n)[n := NUL] = take n (cstr src) @ r"
     "r = [] \<or> hd r = NUL" "r \<noteq> []"
    using strncpy_terminated[of tmp src n] assms by blast
  then obtain r' where "r = NUL # r'" by (cases r) auto
  with r(1) show ?thesis by blast
qed

lemma onI2CRequest_pending:
  assumes "btnEvent s"
  shows "onI2CRequest tmp s =
     (take (I2C_BUF - 1) (cstr (i2cResp s))
        @ take (I2C_BUF - 1 - length (take (I2C_BUF - 1) (cstr (i2cResp s)))) '' +BTN PRESSED''
        @ [NUL],
      s\<lparr>btnEvent := False\<rparr>)"
proof -
  define t where "t = take (I2C_BUF - 1) (cstr (i2cResp s))"
  define tmp1 where "tmp1 = (strncpy tmp (i2cResp s) (I2C_BUF - 1))[I2C_BUF - 1 := NUL]"
  define a where "a = take (I2C_BUF - 1 - length t) '' +BTN PRESSED''"
  have c1: "cstr tmp1 = t" unfolding tmp1_def t_def by (rule tmpResp_cstr)
  have n: "I2C_BUF - strlen tmp1 - 1 = I2C_BUF - 1 - length t"
    by (simp add: strlen_def c1)
  have "NUL \<notin> set t" unfolding t_def by (rule cstr_take_no_NUL)
  moreover have "NUL \<notin> set a" unfolding a_def by (auto simp: NUL_def dest!: in_set_takeD)
  ultimately have na: "NUL \<notin> set (t @ a)" by simp
  obtain r where cat: "strncat tmp1 '' +BTN PRESSED'' (I2C_BUF - strlen tmp1 - 1) = (t @ a) @ NUL # r"
    unfolding n by (simp add: strncat_def c1 Let_def a_def)
  have c2: "strlen ((t @ a) @ NUL # r) = length (t @ a)"
    unfolding strlen_def using cstr_append_NUL[OF na] by simp
  have w: "Wire_write ((t @ a) @ NUL # r) (length (t @ a) + 1) = (t @ a) @ [NUL]"
    unfolding Wire_write_def by (rule take_terminated) simp
  have "onI2CRequest tmp s = ((t @ a) @ [NUL], s\<lparr>btnEvent := False\<rparr>)"
    using assms
    by (simp only: onI2CRequest_def Let_def tmp1_def[symmetric] cat c2 w if_True)
  then show ?thesis by (simp add: t_def a_def)
qed

lemma onI2CRequest_quiet:
  assumes "\<not> btnEvent s"
    and "I2C_BUF \<le> length tmp \<or> strlen (i2cResp s) < I2C_BUF - 1"
  shows "onI2CRequest tmp s = (take (I2C_BUF - 1) (cstr (i2cResp s)) @ [NUL], s)"
proof -
  define t where "t = take (I2C_BUF - 1) (cstr (i2cResp s))"
  define tmp1 where "tmp1 = (strncpy tmp (i2cResp s) (I2C_BUF - 1))[I2C_BUF - 1 := NUL]"
  have "I2C_BUF - 1 < length tmp \<or> length (cstr (i2cResp s)) < I2C_BUF - 1"
    using assms(2) by (auto simp: strlen_def I2C_BUF_def)
  then obtain r where sh: "tmp1 = t @ NUL # r"
    unfolding tmp1_def t_def using tmpResp_shape by blast
  have "NUL \<notin> set t" unfolding t_def by (rule cstr_take_no_NUL)
  then have sl: "strlen (t @ NUL # r) = length t"
    unfolding strlen_def by (simp add: cstr_append_NUL)
  have w: "Wire_write (t @ NUL # r) (length t + 1) = t @ [NUL]"
    unfolding Wire_write_def by (rule take_terminated) simp
  have "onI2CRequest tmp s = (t @ [NUL], s)"
    using assms(1)
    by (simp only: onI2CRequest_def Let_def tmp1_def[symmetric] sh sl w if_False)
  then show ?thesis by (simp add: t_def)
qed

section \<open>One command at a time\<close>

lemma handleButton_keeps:
  "i2cResp (handleButton pin s) = i2cResp s"
  "i2cCmd (handleButton pin s) = i2cCmd s"
  "cmdReady (handleButton pin s) = cmdReady s"
  "servoPos (handleButton pin s) = servoPos s"
  "stepperPos (handleButton pin s) = stepperPos s"
  "relayState (handleButton pin s) = relayState s"
  "servoOut (handleButton pin s) = servoOut s"
  "relayPin (handleButton pin s) = relayPin s"
  "stepperOut (handleButton pin s) = stepperOut s"
  by (simp_all add: handleButton_def)

lemma i2c_command_eq:
  assumes "length (i2cCmd s) = I2C_BUF"
  shows "i2c_command bs pin s =
     Some (handleButton pin (handleCommand
       (s\<lparr>i2cCmd := take (I2C_BUF - 1) bs @ NUL # drop (Suc (min (I2C_BUF - 1) (length bs))) (i2cCmd s),
          cmdReady := False\<rparr>)))"
  by (simp add: i2c_command_def onI2CReceive_eq[OF assms] loop_def)

lemma i2c_command_short:
  assumes "length (i2cCmd s) = I2C_BUF" and "length bs \<le> I2C_BUF - 1"
  shows "i2c_command bs pin s =
     Some (handleButton pin (handleCommand
       (s\<lparr>i2cCmd := bs @ NUL # drop (Suc (length bs)) (i2cCmd s), cmdReady := False\<rparr>)))"
  using assms(2) by (simp add: i2c_command_eq[OF assms(1)] min_absorb2)

lemma handleCommand_keeps_cmd: "i2cCmd (handleCommand t) = i2cCmd t"
  by (simp add: handleCommand_def Let_def)

lemma handle_relay_on:
  assumes "cstr (i2cCmd t) = ''RELAY ON''"
  shows "handleCommand t =
    t\<lparr>relayPin := True, relayState := True, i2cResp := strcpy (i2cResp t) ''OK RELAY ON''\<rparr>"
  by (simp add: handleCommand_def strncmp_eq_def strcmp_eq_def assms)

lemma handle_relay_off:
  assumes "cstr (i2cCmd t) = ''RELAY OFF''"
  shows "handleCommand t =
    t\<lparr>relayPin := False, relayState := False, i2cResp := strcpy (i2cResp t) ''OK RELAY OFF''\<rparr>"
  by (simp add: handleCommand_def strncmp_eq_def strcmp_eq_def assms)

lemma handle_status:
  assumes "cstr (i2cCmd t) = ''STATUS''"
  shows "handleCommand t = t\<lparr>i2cResp := snprintf (i2cResp t) I2C_BUF (status_text t)\<rparr>"
  by (simp add: handleCommand_def strncmp_eq_def strcmp_eq_def assms)

lemma handle_servo:
  assumes "take 9 (cstr (i2cCmd t)) = ''SERVO SET''"
  shows "handleCommand t =
    t\<lparr>servoPos := constrain (atoi (drop 10 (i2cCmd t))) 0 180,
      servoOut := constrain (atoi (drop 10 (i2cCmd t))) 0 180,
      i2cResp := strcpy (i2cResp t) ''OK SERVO''\<rparr>"
  using assms by (simp add: handleCommand_def strncmp_eq_def Let_def)


lemma status_text_no_NUL: "NUL \<notin> set (status_text s)"
  using dec_no_NUL by (auto simp: status_text_def NUL_def)

lemma lit_no_NUL:
  "NUL \<notin> set ''RELAY ON''" "NUL \<notin> set ''RELAY OFF''" "NUL \<notin> set ''STATUS''"
  "NUL \<notin> set ''OK RELAY ON''" "NUL \<notin> set ''OK RELAY OFF''" "NUL \<notin> set ''OK SERVO''"
  "NUL \<notin> set ''ERR CMD''" "NUL \<notin> set ''OK STEPPER''" "NUL \<notin> set ''SERVO SET ''"
  by (simp_all add: NUL_def)

lemma i2c_command_lit:
  assumes "length (i2cCmd s) = I2C_BUF" and "length bs \<le> I2C_BUF - 1" and "NUL \<notin> set bs"
  shows "\<exists>t r. i2c_command bs pin s = Some (handleButton pin (handleCommand t)) \<and>
      i2cCmd t = bs @ NUL # r \<and> cstr (i2cCmd t) = bs \<and> length (i2cCmd t) = I2C_BUF \<and>
      i2cResp t = i2cResp s \<and> servoPos t = servoPos s \<and> stepperPos t = stepperPos s \<and>
      relayState t = relayState s \<and> servoOut t = servoOut s \<and> relayPin t = relayPin s \<and>
      stepperOut t = stepperOut s \<and> btnEvent t = btnEvent s \<and> lastState t = lastState s"
proof -
  define t where "t = s\<lparr>i2cCmd := bs @ NUL # drop (Suc (length bs)) (i2cCmd s), cmdReady := False\<rparr>"
  have r: "i2c_command bs pin s = Some (handleButton pin (handleCommand t))"
    unfolding t_def by (rule i2c_command_short[OF assms(1,2)])
  have c: "cstr (i2cCmd t) = bs"
    unfolding t_def using cstr_append_NUL[OF assms(3)] by simp
  have l: "length (i2cCmd t) = I2C_BUF" using assms(1,2) by (simp add: t_def I2C_BUF_def)
  have i: "i2cCmd t = bs @ NUL # drop (Suc (length bs)) (i2cCmd s)" by (simp add: t_def)
  have f: "i2cResp t = i2cResp s \<and> servoPos t = servoPos s \<and> stepperPos t = stepperPos s \<and>
      relayState t = relayState s \<and> servoOut t = servoOut s \<and> relayPin t = relayPin s \<and>
      stepperOut t = stepperOut s \<and> btnEvent t = btnEvent s \<and> lastState t = lastState s"
    by (simp add: t_def)
  show ?thesis using r i c l f by blast
qed

lemma relay_on_cmd:
  assumes "length (i2cCmd s) = I2C_BUF"
  shows "\<exists>s'. i2c_command ''RELAY ON'' pin s = Some s' \<and> cstr (i2cResp s') = ''OK RELAY ON'' \<and>
      relayState s' \<and> relayPin s' \<and> length (i2cCmd s') = I2C_BUF \<and>
      servoPos s' = servoPos s \<and> stepperPos s' = stepperPos s"
proof -
  have "length ''RELAY ON'' \<le> I2C_BUF - 1" by (simp add: I2C_BUF_def)
  from i2c_command_lit[OF assms this lit_no_NUL(1), of pin]
  obtain t where r: "i2c_command ''RELAY ON'' pin s = Some (handleButton pin (handleCommand t))"
    and c: "cstr (i2cCmd t) = ''RELAY ON''" and l: "length (i2cCmd t) = I2C_BUF"
    and f: "servoPos t = servoPos s" "stepperPos t = stepperPos s"
    by blast
  show ?thesis
    unfolding r handle_relay_on[OF c]
    by (simp add: handleButton_keeps cstr_strcpy[OF lit_no_NUL(4)] l f)
qed

lemma relay_off_cmd:
  assumes "length (i2cCmd s) = I2C_BUF"
  shows "\<exists>s'. i2c_command ''RELAY OFF'' pin s = Some s' \<and> cstr (i2cResp s') = ''OK RELAY OFF'' \<and>
      \<not> relayState s' \<and> \<not> relayPin s' \<and> length (i2cCmd s') = I2C_BUF \<and>
      servoPos s' = servoPos s \<and> stepperPos s' = stepperPos s"
proof -
  have "length ''RELAY OFF'' \<le> I2C_BUF - 1" by (simp add: I2C_BUF_def)
  from i2c_command_lit[OF assms this lit_no_NUL(2), of pin]
  obtain t where r: "i2c_command ''RELAY OFF'' pin s = Some (handleButton pin (handleCommand t))"
    and c: "cstr (i2cCmd t) = ''RELAY OFF''" and l: "length (i2cCmd t) = I2C_BUF"
    and f: "servoPos t = servoPos s" "stepperPos t = stepperPos s"
    by blast
  show ?thesis
    unfolding r handle_relay_off[OF c]
    by (simp add: handleButton_keeps cstr_strcpy[OF lit_no_NUL(5)] l f)
qed

lemma status_cmd:
  assumes "length (i2cCmd s) = I2C_BUF"
  shows "\<exists>s'. i2c_command ''STATUS'' pin s = Some s' \<and>
      cstr (i2cResp s') = take (I2C_BUF - 1) (status_text s) \<and>
      length (i2cCmd s') = I2C_BUF \<and>
      servoPos s' = servoPos s \<and> stepperPos s' = stepperPos s \<and> relayState s' = relayState s"
proof -
  have "length ''STATUS'' \<le> I2C_BUF - 1" by (simp add: I2C_BUF_def)
  from i2c_command_lit[OF assms this lit_no_NUL(3), of pin]
  obtain t where r: "i2c_command ''STATUS'' pin s = Some (handleButton pin (handleCommand t))"
    and c: "cstr (i2cCmd t) = ''STATUS''" and l: "length (i2cCmd t) = I2C_BUF"
    and f: "servoPos t = servoPos s" "stepperPos t = stepperPos s" "relayState t = relayState s"
    by blast
  have st: "status_text t = status_text s" by (simp add: status_text_def f)
  have b: "0 < I2C_BUF" by (simp add: I2C_BUF_def)
  show ?thesis
    unfolding r handle_status[OF c]
    by (simp add: handleButton_keeps cstr_snprintf[OF b status_text_no_NUL] st l f)
qed

lemma dec_nat_len5: "n < 100000 \<Longrightarrow> length (dec_nat n) \<le> 5"
  by (simp add: dec_nat.simps[of n] dec_nat.simps[of "n div 10"]
      dec_nat.simps[of "n div 10 div 10"] dec_nat.simps[of "n div 10 div 10 div 10"]
      dec_nat.simps[of "n div 10 div 10 div 10 div 10"])

lemma dec_len16: "- 32768 \<le> n \<Longrightarrow> n \<le> 32767 \<Longrightarrow> length (dec n) \<le> 6"
proof (cases "n < 0")
  case True
  assume "- 32768 \<le> n"
  then have "nat (- n) < 100000" by simp
  from dec_nat_len5[OF this] True show ?thesis by (simp add: dec_def)
next
  case False
  assume "n \<le> 32767"
  then have "nat n < 100000" by simp
  from dec_nat_len5[OF this] False show ?thesis by (simp add: dec_def)
qed

lemma dec_len_servo: "0 \<le> c \<Longrightarrow> c \<le> 180 \<Longrightarrow> length (dec c) \<le> 3"
  using dec_nat_len3[of "nat c"] by (auto simp: dec_def)

lemma servo_set_cmd:
  assumes "length (i2cCmd s) = I2C_BUF" and "length (dec n) \<le> 21"
  shows "\<exists>s'. i2c_command (''SERVO SET '' @ dec n) pin s = Some s' \<and>
      cstr (i2cResp s') = ''OK SERVO'' \<and>
      servoPos s' = constrain (word_of_int n) 0 180 \<and> servoOut s' = servoPos s' \<and>
      length (i2cCmd s') = I2C_BUF \<and>
      stepperPos s' = stepperPos s \<and> relayState s' = relayState s"
proof -
  define bs where "bs = ''SERVO SET '' @ dec n"
  have lb: "length bs \<le> I2C_BUF - 1" using assms(2) by (simp add: bs_def I2C_BUF_def)
  have nb: "NUL \<notin> set bs" using dec_no_NUL[of n] by (simp add: bs_def NUL_def)
  from i2c_command_lit[OF assms(1) lb nb, of pin]
  obtain t r where r: "i2c_command bs pin s = Some (handleButton pin (handleCommand t))"
    and i: "i2cCmd t = bs @ NUL # r"
    and c: "cstr (i2cCmd t) = bs" and l: "length (i2cCmd t) = I2C_BUF"
    and f: "stepperPos t = stepperPos s" "relayState t = relayState s"
    by blast
  have v: "take 9 (cstr (i2cCmd t)) = ''SERVO SET''" by (simp add: c bs_def)
  have "drop 10 (i2cCmd t) = dec n @ NUL # r" by (simp add: i bs_def)
  moreover have "\<not> isdigit NUL" by (simp add: isdigit_def NUL_def)
  ultimately have a: "atoi (drop 10 (i2cCmd t)) = word_of_int n"
    by (simp add: atoi_dec)
  show ?thesis
    unfolding bs_def[symmetric] r handle_servo[OF v] a
    by (simp add: handleButton_keeps cstr_strcpy[OF lit_no_NUL(6)] l f)
qed

lemma take_past_prefix:
  "length pre \<le> k \<Longrightarrow> take k (pre @ d) = pre @ take (k - length pre) d"
  by simp

lemma status_prefix:
  assumes "0 \<le> c" and "c \<le> 180"
  shows "take (I2C_BUF - 1)
           (''SERVO='' @ dec c @ '' RELAY='' @ (if b then ''ON'' else ''OFF'') @ '' STEPPER='' @ d)
         = ''SERVO='' @ dec c @ '' RELAY='' @ (if b then ''ON'' else ''OFF'') @ '' STEPPER='' @
           take (I2C_BUF - 1 - (22 + length (dec c) + length (if b then ''ON'' else ''OFF''))) d"
proof -
  define pre where
    "pre = ''SERVO='' @ dec c @ '' RELAY='' @ (if b then ''ON'' else ''OFF'') @ '' STEPPER=''"
  have lp: "length pre = 22 + length (dec c) + length (if b then ''ON'' else ''OFF'')"
    by (simp add: pre_def)
  have "length pre \<le> I2C_BUF - 1"
    using dec_len_servo[OF assms] by (simp add: lp I2C_BUF_def)
  from take_past_prefix[OF this, of d]
  have "take (I2C_BUF - 1) (pre @ d) = pre @ take (I2C_BUF - 1 - length pre) d" .
  then show ?thesis
    unfolding lp unfolding pre_def by (simp only: append_assoc)
qed

lemma servo_then_status:
  assumes "length (i2cCmd s) = I2C_BUF" and "length (dec n) \<le> 21"
  shows "\<exists>s1 s2. i2c_command (''SERVO SET '' @ dec n) p1 s = Some s1 \<and>
      cstr (i2cResp s1) = ''OK SERVO'' \<and>
      servoPos s1 = constrain (word_of_int n) 0 180 \<and>
      i2c_command ''STATUS'' p2 s1 = Some s2 \<and> servoPos s2 = servoPos s1 \<and>
      cstr (i2cResp s2) = take (I2C_BUF - 1)
         (''SERVO='' @ dec (sint (servoPos s1)) @ '' RELAY='' @
          (if relayState s then ''ON'' else ''OFF'') @ '' STEPPER='' @ dec (sint (stepperPos s)))"
proof -
  from servo_set_cmd[OF assms, of p1]
  obtain s1 where 1: "i2c_command (''SERVO SET '' @ dec n) p1 s = Some s1"
     "cstr (i2cResp s1) = ''OK SERVO''" "servoPos s1 = constrain (word_of_int n) 0 180"
     "length (i2cCmd s1) = I2C_BUF" "stepperPos s1 = stepperPos s" "relayState s1 = relayState s"
    by blast
  from status_cmd[OF 1(4), of p2]
  obtain s2 where 2: "i2c_command ''STATUS'' p2 s1 = Some s2"
     "cstr (i2cResp s2) = take (I2C_BUF - 1) (status_text s1)" "servoPos s2 = servoPos s1"
    by blast
  have "status_text s1 = ''SERVO='' @ dec (sint (servoPos s1)) @ '' RELAY='' @
          (if relayState s then ''ON'' else ''OFF'') @ '' STEPPER='' @ dec (sint (stepperPos s))"
    by (simp add: status_text_def 1(5,6))
  with 1 2 show ?thesis by metis
qed

lemma handleCommand_keeps_btn:
  "btnEvent (handleCommand t) = btnEvent t" "lastState (handleCommand t) = lastState t"
  by (simp_all add: handleCommand_def Let_def)

lemma handleButton_btn:
  "btnEvent (handleButton pin s) = (btnEvent s \<or> lastState s \<and> \<not> pin)"
  "lastState (handleButton pin s) = pin"
  by (auto simp: handleButton_def)

lemma i2c_command_btn:
  assumes "length (i2cCmd s) = I2C_BUF" and "i2c_command bs pin s = Some s'"
  shows "btnEvent s' = (btnEvent s \<or> lastState s \<and> \<not> pin) \<and> lastState s' = pin"
proof -
  define t where "t = s\<lparr>i2cCmd := take (I2C_BUF - 1) bs @ NUL #
      drop (Suc (min (I2C_BUF - 1) (length bs))) (i2cCmd s), cmdReady := False\<rparr>"
  have "s' = handleButton pin (handleCommand t)"
    using assms(2) unfolding i2c_command_eq[OF assms(1)] t_def by simp
  moreover have "btnEvent t = btnEvent s" "lastState t = lastState s"
    by (simp_all add: t_def)
  ultimately show ?thesis
    by (simp add: handleButton_btn handleCommand_keeps_btn)
qed

lemma cstr_cut: "cstr (t @ NUL # r) = cstr t"
  by (induction t) (simp_all add: cstr_def)

lemma cstr_le: "length (cstr t) \<le> length t"
  by (simp add: cstr_def length_takeWhile_le)

lemma nth_strlen: "NUL \<in> set buf \<Longrightarrow> buf ! strlen buf = NUL"
proof -
  assume a: "NUL \<in> set buf"
  have "takeWhile (\<lambda>c. c \<noteq> NUL) buf \<noteq> buf"
    using a by (auto simp: takeWhile_eq_all_conv)
  then have "length (takeWhile (\<lambda>c. c \<noteq> NUL) buf) < length buf"
    using length_takeWhile_le[of "\<lambda>c. c \<noteq> NUL" buf]
    by (metis le_neq_implies_less takeWhile_eq_take take_all order_refl)
  from nth_length_takeWhile[OF this] show ?thesis
    by (simp add: strlen_def cstr_def)
qed

lemma short_frame:
  assumes "length (cstr (i2cResp s)) \<le> 18"
  shows "fst (onI2CRequest tmp s) =
     cstr (i2cResp s) @ (if btnEvent s then '' +BTN PRESSED'' else []) @ [NUL]"
proof (cases "btnEvent s")
  case True
  have t: "take (I2C_BUF - 1) (cstr (i2cResp s)) = cstr (i2cResp s)"
    using assms by (simp add: I2C_BUF_def)
  have "take (I2C_BUF - 1 - length (cstr (i2cResp s))) '' +BTN PRESSED'' = '' +BTN PRESSED''"
    using assms by (simp add: I2C_BUF_def)
  then show ?thesis
    using True by (simp add: onI2CRequest_pending t)
next
  case False
  have "I2C_BUF \<le> length tmp \<or> strlen (i2cResp s) < I2C_BUF - 1"
    using assms by (simp add: strlen_def I2C_BUF_def)
  from onI2CRequest_quiet[OF False this] assms show ?thesis
    using False by (simp add: I2C_BUF_def)
qed

section \<open>The button event flag\<close>

lemma request_clears_flag: "\<not> btnEvent (snd (onI2CRequest tmp s))"
  by (simp add: onI2CRequest_def Let_def)

lemma presses_coalesce:
  "btnEvent (handleButton False (handleButton True (handleButton False s))) \<and>
   \<not> btnEvent (snd (onI2CRequest tmp
       (handleButton False (handleButton True (handleButton False s)))))"
  by (simp add: handleButton_btn request_clears_flag)

text \<open>
  The two verbs that take an argument are matched on their first 9 and 12 characters
  only, so a command that merely starts with one of them is handled as that verb.
\<close>

lemma servo_prefix_accepts:
  "cstr (i2cResp (the (i2c_command ''SERVO SETTLE'' True after_setup))) = ''OK SERVO'' \<and>
   sint (servoPos (the (i2c_command ''SERVO SETTLE'' True after_setup))) = 0"
  by code_simp

section \<open>What the sensor hub writes on a read request\<close>

lemma take_exact: "length a = n \<Longrightarrow> take n (a @ b) = a"
  by simp

lemma hub_frame:
  "fst (onI2CRequest_hub fmt1 now d resp) =
     take (I2C_BUF - 1) (sensor_text fmt1 now d) @
     replicate (I2C_BUF - length (take (I2C_BUF - 1) (sensor_text fmt1 now d))) NUL"
proof -
  define t where "t = take (I2C_BUF - 1) (sensor_text fmt1 now d)"
  have lt: "length t \<le> 31" by (simp add: t_def I2C_BUF_def)
  have r: "snprintf (memset resp NUL I2C_BUF) I2C_BUF (sensor_text fmt1 now d)
      = t @ NUL # replicate (31 - length t) NUL @ drop 32 resp"
    unfolding snprintf_def Let_def t_def[symmetric] memset_def
    using lt by (simp add: I2C_BUF_def)
  have "length (t @ NUL # replicate (31 - length t) NUL) = 32"
    using lt by simp
  from take_exact[OF this, of "drop 32 resp"]
  have "take 32 (t @ NUL # replicate (31 - length t) NUL @ drop 32 resp)
      = t @ NUL # replicate (31 - length t) NUL"
    by simp
  also have "NUL # replicate (31 - length t) NUL = replicate (32 - length t) NUL"
    using lt by (simp add: Suc_diff_le flip: replicate_Suc)
  finally have "take 32 (t @ NUL # replicate (31 - length t) NUL @ drop 32 resp)
      = t @ replicate (32 - length t) NUL" .
  then show ?thesis
    unfolding onI2CRequest_hub_def Let_def fst_conv Wire_write_def r t_def[symmetric]
    by (simp add: I2C_BUF_def)
qed

lemma hub_frame_length: "length (fst (onI2CRequest_hub fmt1 now d resp)) = I2C_BUF"
  unfolding hub_frame by (simp add: I2C_BUF_def)

lemma clapSec_sint:
  "sint (clapSec now l) =
     (if l = 0 \<or> 1000 \<le> unat (now - l) div 1000 then - 1
      else int (unat (now - l) div 1000))"
proof -
  have s: "sint ((now - l) div 1000) = int (unat (now - l) div 1000)"
    by (rule clap_small)
  have c: "(1000 \<le>s (now - l) div 1000) = (1000 \<le> unat (now - l) div 1000)"
    by (simp add: word_sle_eq s)
  show ?thesis
    by (simp add: clapSec_def Let_def word_gt_0 c s)
qed

lemma dec_minus_one: "dec (- 1) = ''-1''"
  by (simp add: dec_def dec_nat.simps digit_char_def)

lemma clap_field:
  "dec (sint (clapSec now l)) =
     (if l = 0 \<or> 1000 \<le> unat (now - l) div 1000 then ''-1''
      else dec (int (unat (now - l) div 1000)))"
  by (simp add: clapSec_sint dec_minus_one)

lemma clap_field_short: "length (dec (sint (clapSec now l))) \<le> 3"
  using dec_nat_len3[of "unat (now - l) div 1000"]
  by (simp add: clap_field) (simp add: dec_def)

section \<open>Properties of the two peers\<close>

text \<open>
  C1, as stated, on the actuator: right after start-up a read request is answered with
  the six bytes \<open>READY\<close> and NUL, not with 32.
\<close>

theorem actuator_ready_frame:
  "fst (onI2CRequest (replicate 32 (CHR ''?'')) after_setup) = ''READY'' @ [NUL] \<and>
   length (fst (onI2CRequest (replicate 32 (CHR ''?'')) after_setup)) \<noteq> I2C_BUF"
  by code_simp

text \<open>
  C1, amended. The sensor hub always writes 32 bytes: its text cut to 31 characters and
  padded with NULs. The actuator writes its response string cut to 31 characters, then
  as much of the button marker as still fits when an event is pending, then one NUL and
  nothing more: between 1 and 32 bytes, one more than the length of the text.
\<close>

theorem frame_sizes:
  assumes "length tmp = I2C_BUF"
  shows "length (fst (onI2CRequest_hub fmt1 now d resp)) = I2C_BUF \<and>
     fst (onI2CRequest_hub fmt1 now d resp) =
       take (I2C_BUF - 1) (sensor_text fmt1 now d) @
       replicate (I2C_BUF - length (take (I2C_BUF - 1) (sensor_text fmt1 now d))) NUL \<and>
     (\<exists>body. fst (onI2CRequest tmp s) = body @ [NUL] \<and> NUL \<notin> set body \<and>
        body = take (I2C_BUF - 1) (cstr (i2cResp s)) @
               (if btnEvent s
                then take (I2C_BUF - 1 - length (take (I2C_BUF - 1) (cstr (i2cResp s))))
                       '' +BTN PRESSED''
                else []) \<and>
        length (fst (onI2CRequest tmp s)) = length body + 1 \<and>
        1 \<le> length (fst (onI2CRequest tmp s)) \<and>
        length (fst (onI2CRequest tmp s)) \<le> I2C_BUF)"
proof -
  define r where "r = take (I2C_BUF - 1) (cstr (i2cResp s))"
  define a where "a = (if btnEvent s
                then take (I2C_BUF - 1 - length r) '' +BTN PRESSED'' else [])"
  have f: "fst (onI2CRequest tmp s) = (r @ a) @ [NUL]"
  proof (cases "btnEvent s")
    case True
    then show ?thesis by (simp add: onI2CRequest_pending r_def a_def)
  next
    case False
    have "I2C_BUF \<le> length tmp \<or> strlen (i2cResp s) < I2C_BUF - 1" using assms by simp
    from onI2CRequest_quiet[OF False this] False show ?thesis
      by (simp add: r_def a_def)
  qed
  have "NUL \<notin> set r" unfolding r_def by (rule cstr_take_no_NUL)
  moreover have "NUL \<notin> set a" by (auto simp: a_def NUL_def dest!: in_set_takeD)
  ultimately have n: "NUL \<notin> set (r @ a)" by simp
  have "length r \<le> I2C_BUF - 1" by (simp add: r_def)
  moreover have "length a \<le> I2C_BUF - 1 - length r" by (simp add: a_def)
  ultimately have l: "length (r @ a) + 1 \<le> I2C_BUF" by (simp add: I2C_BUF_def)
  have b: "\<exists>body. fst (onI2CRequest tmp s) = body @ [NUL] \<and> NUL \<notin> set body \<and>
        body = r @ a \<and>
        length (fst (onI2CRequest tmp s)) = length body + 1 \<and>
        1 \<le> length (fst (onI2CRequest tmp s)) \<and>
        length (fst (onI2CRequest tmp s)) \<le> I2C_BUF"
    using f n l by simp
  show ?thesis
    using hub_frame_length[of fmt1 now d resp] hub_frame[of fmt1 now d resp] b
    unfolding a_def r_def by blast
qed

theorem frame_sizes_witness:
  "length (replicate 32 (CHR ''?'')) = I2C_BUF \<and>
   length (fst (onI2CRequest_hub (\<lambda>x. x) 65000
       \<lparr>temp = ''23.4'', hum = ''45.1'', photo = 1023, lastClapMs = 42000\<rparr> (replicate 32 NUL))) = 32 \<and>
   length (fst (onI2CRequest (replicate 32 (CHR ''?'')) after_setup)) = 6"
proof -
  have h: "length (replicate 32 (CHR ''?'')) = I2C_BUF" by (simp add: I2C_BUF_def)
  from frame_sizes[OF h, of "\<lambda>x. x" 65000
       "\<lparr>temp = ''23.4'', hum = ''45.1'', photo = 1023, lastClapMs = 42000\<rparr>" "replicate 32 NUL"
       after_setup]
  obtain body where
    1: "length (fst (onI2CRequest_hub (\<lambda>x. x) 65000
       \<lparr>temp = ''23.4'', hum = ''45.1'', photo = 1023, lastClapMs = 42000\<rparr> (replicate 32 NUL))) = I2C_BUF"
    and 2: "body = take (I2C_BUF - 1) (cstr (i2cResp after_setup)) @
               (if btnEvent after_setup
                then take (I2C_BUF - 1 - length (take (I2C_BUF - 1) (cstr (i2cResp after_setup))))
                       '' +BTN PRESSED''
                else [])"
    and 3: "length (fst (onI2CRequest (replicate 32 (CHR ''?'')) after_setup)) = length body + 1"
    by blast
  have "body = ''READY''"
    unfolding 2 by (simp add: after_setup_def cstr_def NUL_def I2C_BUF_def)
  with 1 3 h show ?thesis by (simp add: I2C_BUF_def)
qed

text \<open>
  C2, as stated, at \<open>n = 40000\<close>. The number does not fit the board's 16-bit \<open>int\<close>:
  \<open>atoi\<close> returns \<open>40000 - 65536\<close>, which is negative, so the stored position is 0 and
  \<open>STATUS\<close> reports \<open>SERVO=0\<close>, where clamping 40000 would give 180.
\<close>

theorem servo_set_40000:
  "(180::int) < 40000 \<and>
   i2c_command ''SERVO SET 40000'' True after_setup \<noteq> None \<and>
   sint (servoPos (the (i2c_command ''SERVO SET 40000'' True after_setup))) \<noteq> 180 \<and>
   sint (servoPos (the (i2c_command ''SERVO SET 40000'' True after_setup))) = 0 \<and>
   cstr (i2cResp (the (i2c_command ''STATUS'' True
     (the (i2c_command ''SERVO SET 40000'' True after_setup))))) = ''SERVO=0 RELAY=OFF STEPPER=0''"
  by code_simp

text \<open>
  C2, amended. For every \<open>n\<close> that a 16-bit \<open>int\<close> can hold and that lies outside
  \<open>[0, 180]\<close>, \<open>SERVO SET n\<close> is answered \<open>OK SERVO\<close> and stores 0 when \<open>n\<close> is
  negative and 180 otherwise; a \<open>STATUS\<close> straight after it reports that value in its
  \<open>SERVO\<close> field, not \<open>n\<close>.
\<close>

theorem servo_set_clamped:
  assumes "length (i2cCmd s) = I2C_BUF" and "- 32768 \<le> n" and "n \<le> 32767"
    and "n < 0 \<or> 180 < n"
  shows "\<exists>s1 s2 k. i2c_command (''SERVO SET '' @ dec n) p1 s = Some s1 \<and>
      cstr (i2cResp s1) = ''OK SERVO'' \<and>
      sint (servoPos s1) = (if n < 0 then 0 else 180) \<and> sint (servoPos s1) \<noteq> n \<and>
      i2c_command ''STATUS'' p2 s1 = Some s2 \<and>
      sint (servoPos s2) = (if n < 0 then 0 else 180) \<and>
      3 \<le> k \<and>
      cstr (i2cResp s2) =
        ''SERVO='' @ dec (if n < 0 then 0 else 180) @ '' RELAY='' @
        (if relayState s then ''ON'' else ''OFF'') @
        '' STEPPER='' @ take k (dec (sint (stepperPos s)))"
proof -
  define c :: int where "c = (if n < 0 then 0 else 180)"
  have c: "0 \<le> c" "c \<le> 180" "c \<noteq> n" using assms(4) by (auto simp: c_def)
  have ld: "length (dec n) \<le> 21" using dec_len16[OF assms(2,3)] by simp
  from servo_then_status[OF assms(1) ld, of p1 p2]
  obtain s1 s2 where 1: "i2c_command (''SERVO SET '' @ dec n) p1 s = Some s1"
      "cstr (i2cResp s1) = ''OK SERVO''"
      "servoPos s1 = constrain (word_of_int n) 0 180"
      "i2c_command ''STATUS'' p2 s1 = Some s2" "servoPos s2 = servoPos s1"
      "cstr (i2cResp s2) = take (I2C_BUF - 1)
         (''SERVO='' @ dec (sint (servoPos s1)) @ '' RELAY='' @
          (if relayState s then ''ON'' else ''OFF'') @ '' STEPPER='' @ dec (sint (stepperPos s)))"
    by blast
  have v: "sint (servoPos s1) = c"
    using assms(4) by (auto simp: 1(3) constrain_sint sint16[OF assms(2,3)] c_def)
  define k where "k = I2C_BUF - 1 - (22 + length (dec c) + length (if relayState s then ''ON'' else ''OFF''))"
  have k3: "3 \<le> k"
    using dec_len_servo[OF c(1,2)] by (auto simp: k_def I2C_BUF_def)
  have "cstr (i2cResp s2) =
        ''SERVO='' @ dec c @ '' RELAY='' @ (if relayState s then ''ON'' else ''OFF'') @
        '' STEPPER='' @ take k (dec (sint (stepperPos s)))"
    unfolding 1(6) v k_def by (rule status_prefix[OF c(1,2)])
  with 1 v k3 c(3) show ?thesis unfolding c_def by metis
qed

theorem servo_set_clamped_witness:
  "length (i2cCmd after_setup) = I2C_BUF \<and> - 32768 \<le> (200::int) \<and> (200::int) \<le> 32767 \<and>
   ((200::int) < 0 \<or> 180 < (200::int)) \<and>
   (\<exists>s1 s2. i2c_command ''SERVO SET 200'' True after_setup = Some s1 \<and>
      cstr (i2cResp s1) = ''OK SERVO'' \<and> sint (servoPos s1) = 180 \<and>
      i2c_command ''STATUS'' True s1 = Some s2 \<and>
      cstr (i2cResp s2) = ''SERVO=180 RELAY=OFF STEPPER=0'')"
proof -
  have h: "length (i2cCmd after_setup) = I2C_BUF" by (simp add: after_setup_def)
  have d: "dec 200 = ''200''" "dec 180 = ''180''" "dec 0 = ''0''"
    by (simp_all add: dec_def dec_nat.simps digit_char_def)
  from servo_set_clamped[OF h, of 200 True True]
  obtain s1 s2 k where 1: "i2c_command (''SERVO SET '' @ dec 200) True after_setup = Some s1"
      "cstr (i2cResp s1) = ''OK SERVO''" "sint (servoPos s1) = 180"
      "i2c_command ''STATUS'' True s1 = Some s2" "3 \<le> k"
      "cstr (i2cResp s2) =
        ''SERVO='' @ dec 180 @ '' RELAY='' @ (if relayState after_setup then ''ON'' else ''OFF'') @
        '' STEPPER='' @ take k (dec (sint (stepperPos after_setup)))"
    by auto
  have "cstr (i2cResp s2) = ''SERVO=180 RELAY=OFF STEPPER=0''"
    using 1(5) unfolding 1(6) by (simp add: d after_setup_def)
  with h 1(1-4) show ?thesis by (auto simp: d)
qed

text \<open>
  C3. Provided the two \<open>%.1f\<close> renderings contain no NUL and, with the light level,
  take at most 17 characters (so that the whole text fits the 31 available ones), the
  reply to a read request is \<open>T=.. H=.. P=.. C=..\<close>, NUL-padded to 32 bytes. The
  \<open>C\<close> field is \<open>-1\<close> when \<open>lastClapMs\<close> still has its start-up value 0 and when at
  least 1000 whole seconds lie between \<open>lastClapMs\<close> and \<open>now\<close> on the 32-bit
  millisecond counter; otherwise it is that number of whole seconds.
\<close>

theorem hub_reply:
  assumes "NUL \<notin> set (fmt1 (temp d))" and "NUL \<notin> set (fmt1 (hum d))"
    and "length (fmt1 (temp d)) + length (fmt1 (hum d)) + length (dec (sint (photo d))) \<le> 17"
  shows "cstr (fst (onI2CRequest_hub fmt1 now d resp)) =
      ''T='' @ fmt1 (temp d) @ '' H='' @ fmt1 (hum d) @ '' P='' @ dec (sint (photo d)) @
      '' C='' @
      (if lastClapMs d = 0 \<or> 1000 \<le> unat (now - lastClapMs d) div 1000 then ''-1''
       else dec (int (unat (now - lastClapMs d) div 1000))) \<and>
    length (fst (onI2CRequest_hub fmt1 now d resp)) = I2C_BUF \<and>
    last (fst (onI2CRequest_hub fmt1 now d resp)) = NUL"
proof -
  define body where "body = sensor_text fmt1 now d"
  have e: "body = ''T='' @ fmt1 (temp d) @ '' H='' @ fmt1 (hum d) @ '' P='' @ dec (sint (photo d)) @
      '' C='' @
      (if lastClapMs d = 0 \<or> 1000 \<le> unat (now - lastClapMs d) div 1000 then ''-1''
       else dec (int (unat (now - lastClapMs d) div 1000)))"
    unfolding body_def sensor_text_def clap_field ..
  have "length body = 11 + (length (fmt1 (temp d)) + length (fmt1 (hum d)) +
      length (dec (sint (photo d)))) + length (dec (sint (clapSec now (lastClapMs d))))"
    by (simp add: body_def sensor_text_def)
  then have l: "length body \<le> I2C_BUF - 1"
    using assms(3) clap_field_short[of now "lastClapMs d"] by (simp add: I2C_BUF_def)
  have n: "NUL \<notin> set body"
    using assms(1,2) dec_no_NUL by (auto simp: body_def sensor_text_def NUL_def)
  have t: "take (I2C_BUF - 1) body = body" using l by simp
  have f: "fst (onI2CRequest_hub fmt1 now d resp) = body @ replicate (I2C_BUF - length body) NUL"
    unfolding hub_frame body_def[symmetric] t ..
  obtain k where k: "I2C_BUF - length body = Suc k"
    using l by (cases "I2C_BUF - length body") (auto simp: I2C_BUF_def)
  have c: "cstr (fst (onI2CRequest_hub fmt1 now d resp)) = body"
    unfolding f k using cstr_append_NUL[OF n] by simp
  have la: "last (fst (onI2CRequest_hub fmt1 now d resp)) = NUL"
    unfolding f k by simp
  show ?thesis
    using c hub_frame_length[of fmt1 now d resp] la unfolding e by blast
qed

theorem hub_reply_witness:
  "NUL \<notin> set ((\<lambda>x. x) ''23.4'') \<and> NUL \<notin> set ((\<lambda>x. x) ''45.1'') \<and>
   length ((\<lambda>x. x) ''23.4'') + length ((\<lambda>x. x) ''45.1'') + length (dec (sint (1023 :: 32 word))) \<le> 17 \<and>
   cstr (fst (onI2CRequest_hub (\<lambda>x. x) 65000
       \<lparr>temp = ''23.4'', hum = ''45.1'', photo = 1023, lastClapMs = 42000\<rparr> (replicate 32 NUL)))
     = ''T=23.4 H=45.1 P=1023 C=23''"
proof -
  have d: "dec 1023 = ''1023''" "dec 23 = ''23''"
    by (simp_all add: dec_def dec_nat.simps digit_char_def)
  have h: "NUL \<notin> set ((\<lambda>x. x) (temp \<lparr>temp = ''23.4'', hum = ''45.1'', photo = 1023 :: 32 word, lastClapMs = 42000 :: 32 word\<rparr>))"
    "NUL \<notin> set ((\<lambda>x. x) (hum \<lparr>temp = ''23.4'', hum = ''45.1'', photo = 1023 :: 32 word, lastClapMs = 42000 :: 32 word\<rparr>))"
    "length ((\<lambda>x. x) (temp \<lparr>temp = ''23.4'', hum = ''45.1'', photo = 1023 :: 32 word, lastClapMs = 42000 :: 32 word\<rparr>))
     + length ((\<lambda>x. x) (hum \<lparr>temp = ''23.4'', hum = ''45.1'', photo = 1023 :: 32 word, lastClapMs = 42000 :: 32 word\<rparr>))
     + length (dec (sint (photo \<lparr>temp = ''23.4'', hum = ''45.1'', photo = 1023 :: 32 word, lastClapMs = 42000 :: 32 word\<rparr>))) \<le> 17"
    by (simp_all add: NUL_def d)
  from hub_reply[OF h, of 65000 "replicate 32 NUL"]
  have "cstr (fst (onI2CRequest_hub (\<lambda>x. x) 65000
       \<lparr>temp = ''23.4'', hum = ''45.1'', photo = 1023, lastClapMs = 42000\<rparr> (replicate 32 NUL)))
     = ''T=23.4 H=45.1 P=1023 C=23''"
    by (simp add: d)
  then show ?thesis by (simp add: NUL_def d)
qed

text \<open>
  C4 on a concrete run: \<open>STATUS\<close> is handled, the button is pressed, and the master reads
  twice. The first frame ends in \<open>+B\<close>, the three characters of the marker that fit after
  the 28-character status text; the flag is cleared all the same, and the second frame
  carries no marker at all.
\<close>

theorem button_marker_cut_after_status:
  "fst (onI2CRequest (replicate 32 (CHR ''?''))
         (loop False (the (i2c_command ''STATUS'' True after_setup))))
     = ''SERVO=90 RELAY=OFF STEPPER=0 +B'' @ [NUL] \<and>
   btnEvent (loop False (the (i2c_command ''STATUS'' True after_setup))) \<and>
   \<not> btnEvent (snd (onI2CRequest (replicate 32 (CHR ''?''))
         (loop False (the (i2c_command ''STATUS'' True after_setup))))) \<and>
   fst (onI2CRequest (replicate 32 (CHR ''?''))
         (snd (onI2CRequest (replicate 32 (CHR ''?''))
            (loop False (the (i2c_command ''STATUS'' True after_setup))))))
     = ''SERVO=90 RELAY=OFF STEPPER=0'' @ [NUL]"
  by code_simp





text \<open>
  C7. \<open>RELAY ON\<close> followed by \<open>RELAY OFF\<close> is acknowledged with \<open>OK RELAY ON\<close> and
  then \<open>OK RELAY OFF\<close>, each the whole response that a read request returns (followed
  by the button marker when a press is pending), and leaves the relay off.
\<close>

theorem relay_on_then_off:
  assumes "length (i2cCmd s) = I2C_BUF"
  shows "\<exists>s1 s2. i2c_command ''RELAY ON'' p1 s = Some s1 \<and>
      cstr (i2cResp s1) = ''OK RELAY ON'' \<and> relayState s1 \<and>
      fst (onI2CRequest tmp1 s1)
        = ''OK RELAY ON'' @ (if btnEvent s1 then '' +BTN PRESSED'' else []) @ [NUL] \<and>
      i2c_command ''RELAY OFF'' p2 s1 = Some s2 \<and>
      cstr (i2cResp s2) = ''OK RELAY OFF'' \<and> \<not> relayState s2 \<and> \<not> relayPin s2 \<and>
      fst (onI2CRequest tmp2 s2)
        = ''OK RELAY OFF'' @ (if btnEvent s2 then '' +BTN PRESSED'' else []) @ [NUL]"
proof -
  from relay_on_cmd[OF assms, of p1]
  obtain s1 where 1: "i2c_command ''RELAY ON'' p1 s = Some s1"
      "cstr (i2cResp s1) = ''OK RELAY ON''" "relayState s1" "length (i2cCmd s1) = I2C_BUF"
    by blast
  from relay_off_cmd[OF 1(4), of p2]
  obtain s2 where 2: "i2c_command ''RELAY OFF'' p2 s1 = Some s2"
      "cstr (i2cResp s2) = ''OK RELAY OFF''" "\<not> relayState s2" "\<not> relayPin s2"
    by blast
  have "length (cstr (i2cResp s1)) \<le> 18" by (simp add: 1(2))
  from short_frame[OF this, of tmp1]
  have f1: "fst (onI2CRequest tmp1 s1)
        = ''OK RELAY ON'' @ (if btnEvent s1 then '' +BTN PRESSED'' else []) @ [NUL]"
    by (simp only: 1(2))
  have "length (cstr (i2cResp s2)) \<le> 18" by (simp add: 2(2))
  from short_frame[OF this, of tmp2]
  have f2: "fst (onI2CRequest tmp2 s2)
        = ''OK RELAY OFF'' @ (if btnEvent s2 then '' +BTN PRESSED'' else []) @ [NUL]"
    by (simp only: 2(2))
  show ?thesis
    using 1(1,2,3) 2 f1 f2 by blast
qed

theorem relay_on_then_off_witness:
  "length (i2cCmd after_setup) = I2C_BUF \<and>
   (\<exists>s1 s2. i2c_command ''RELAY ON'' True after_setup = Some s1 \<and>
      cstr (i2cResp s1) = ''OK RELAY ON'' \<and> relayState s1 \<and>
      i2c_command ''RELAY OFF'' True s1 = Some s2 \<and>
      cstr (i2cResp s2) = ''OK RELAY OFF'' \<and> \<not> relayState s2 \<and> \<not> relayPin s2)"
proof -
  have h: "length (i2cCmd after_setup) = I2C_BUF" by (simp add: after_setup_def)
  from relay_on_then_off[OF h, of True _ True] h show ?thesis by blast
qed

text \<open>
  C8. Whatever the master sends, and however long it is, the receive handler makes no
  store outside the 32-byte command buffer: it keeps the first 31 bytes at most, puts a
  NUL right after them, and leaves the buffer holding a terminated string of at most
  31 characters.
\<close>

theorem onI2CReceive_bounded:
  assumes "length (i2cCmd s) = I2C_BUF"
  shows "\<exists>s'. onI2CReceive bytes s = Some s' \<and> cmdReady s' \<and>
      length (i2cCmd s') = I2C_BUF \<and>
      i2cCmd s' = take (I2C_BUF - 1) bytes @ NUL #
                    drop (Suc (min (I2C_BUF - 1) (length bytes))) (i2cCmd s) \<and>
      cstr (i2cCmd s') = cstr (take (I2C_BUF - 1) bytes) \<and>
      strlen (i2cCmd s') \<le> I2C_BUF - 1 \<and>
      i2cCmd s' ! strlen (i2cCmd s') = NUL"
proof -
  define buf where "buf = take (I2C_BUF - 1) bytes @ NUL #
                    drop (Suc (min (I2C_BUF - 1) (length bytes))) (i2cCmd s)"
  have r: "onI2CReceive bytes s = Some (s\<lparr>i2cCmd := buf, cmdReady := True\<rparr>)"
    unfolding buf_def by (rule onI2CReceive_eq[OF assms])
  have l: "length buf = I2C_BUF" using assms by (simp add: buf_def I2C_BUF_def)
  have c: "cstr buf = cstr (take (I2C_BUF - 1) bytes)"
    unfolding buf_def by (rule cstr_cut)
  have "length (cstr (take (I2C_BUF - 1) bytes)) \<le> length (take (I2C_BUF - 1) bytes)"
    by (rule cstr_le)
  then have b: "strlen buf \<le> I2C_BUF - 1" by (simp add: strlen_def c)
  have "NUL \<in> set buf" by (simp add: buf_def)
  then have n: "buf ! strlen buf = NUL" by (rule nth_strlen)
  have e: "i2cCmd (s\<lparr>i2cCmd := buf, cmdReady := True\<rparr>) = buf"
     "cmdReady (s\<lparr>i2cCmd := buf, cmdReady := True\<rparr>)"
    by simp_all
  show ?thesis
    unfolding r buf_def[symmetric]
    by (intro exI[of _ "s\<lparr>i2cCmd := buf, cmdReady := True\<rparr>"] conjI refl)
       (simp_all only: e l c b n)
qed

theorem onI2CReceive_bounded_witness:
  "length (i2cCmd after_setup) = I2C_BUF \<and>
   (\<exists>s'. onI2CReceive (replicate 40 (CHR ''A'')) after_setup = Some s' \<and> cmdReady s' \<and>
      length (i2cCmd s') = I2C_BUF \<and>
      i2cCmd s' = replicate 31 (CHR ''A'') @ [NUL] \<and>
      strlen (i2cCmd s') = 31)"
proof -
  have h: "length (i2cCmd after_setup) = I2C_BUF" by (simp add: after_setup_def)
  from onI2CReceive_bounded[OF h, of "replicate 40 (CHR ''A'')"]
  obtain s' where s: "onI2CReceive (replicate 40 (CHR ''A'')) after_setup = Some s'" "cmdReady s'"
      "length (i2cCmd s') = I2C_BUF"
      "i2cCmd s' = take (I2C_BUF - 1) (replicate 40 (CHR ''A'')) @ NUL #
                    drop (Suc (min (I2C_BUF - 1) (length (replicate 40 (CHR ''A''))))) (i2cCmd after_setup)"
      "cstr (i2cCmd s') = cstr (take (I2C_BUF - 1) (replicate 40 (CHR ''A'')))"
    by blast
  have i: "i2cCmd s' = replicate 31 (CHR ''A'') @ [NUL]"
    using s(4) by (simp add: I2C_BUF_def after_setup_def)
  have "cstr (take (I2C_BUF - 1) (replicate 40 (CHR ''A''))) = replicate 31 (CHR ''A'')"
    by (simp add: I2C_BUF_def cstr_def NUL_def)
  then have "strlen (i2cCmd s') = 31" by (simp add: strlen_def s(5))
  with h s i show ?thesis by blast
qed

text \<open>
  C9. After \<open>setup()\<close> the response buffer reads \<open>READY\<close>, the servo position is 90, the
  stepper position 0, the relay off and no button event is pending; a main-loop pass with
  the button released changes nothing. A read request then gets \<open>READY\<close> and its
  terminator, and a \<open>STATUS\<close> sent as the first command is answered with
  \<open>SERVO=90 RELAY=OFF STEPPER=0\<close>.
\<close>

theorem startup_state:
  "cstr (i2cResp after_setup) = ''READY'' \<and> sint (servoPos after_setup) = 90 \<and>
   sint (stepperPos after_setup) = 0 \<and> \<not> relayState after_setup \<and> \<not> btnEvent after_setup \<and>
   loop True after_setup = after_setup \<and>
   fst (onI2CRequest tmp after_setup) = ''READY'' @ [NUL] \<and>
   (\<exists>s'. i2c_command ''STATUS'' pin after_setup = Some s' \<and>
         cstr (i2cResp s') = ''SERVO=90 RELAY=OFF STEPPER=0'') \<and>
   (\<exists>s'. i2c_command ''STATUS'' True after_setup = Some s' \<and>
         fst (onI2CRequest tmp s') = ''SERVO=90 RELAY=OFF STEPPER=0'' @ [NUL])"
proof -
  have a: "cstr (i2cResp after_setup) = ''READY''"
    by (simp add: after_setup_def cstr_def NUL_def)
  have b: "loop True after_setup = after_setup"
    by (simp add: after_setup_def loop_def handleButton_def)
  have nb: "\<not> btnEvent after_setup" by (simp add: after_setup_def)
  have "length (cstr (i2cResp after_setup)) \<le> 18" by (simp add: a)
  from short_frame[OF this, of tmp]
  have c: "fst (onI2CRequest tmp after_setup) = ''READY'' @ [NUL]"
    by (simp add: a nb)
  have l: "length (i2cCmd after_setup) = I2C_BUF" by (simp add: after_setup_def)
  have d90: "dec 90 = ''90''" "dec 0 = ''0''"
    by (simp_all add: dec_def dec_nat.simps digit_char_def)
  have st: "take (I2C_BUF - 1) (status_text after_setup) = ''SERVO=90 RELAY=OFF STEPPER=0''"
    by (simp add: status_text_def after_setup_def d90 I2C_BUF_def)
  have d: "\<exists>s'. i2c_command ''STATUS'' p after_setup = Some s' \<and>
         cstr (i2cResp s') = ''SERVO=90 RELAY=OFF STEPPER=0''" for p
    using status_cmd[OF l, of p] unfolding st by blast
  obtain s' where s': "i2c_command ''STATUS'' True after_setup = Some s'"
         "cstr (i2cResp s') = ''SERVO=90 RELAY=OFF STEPPER=0''"
    using d[of True] by blast
  have q: "\<not> btnEvent s'"
    using i2c_command_btn[OF l s'(1)] by (simp add: after_setup_def)
  have "I2C_BUF \<le> length tmp \<or> strlen (i2cResp s') < I2C_BUF - 1"
    by (simp add: strlen_def s'(2) I2C_BUF_def)
  from onI2CRequest_quiet[OF q this, of ]
  have e: "fst (onI2CRequest tmp s') = ''SERVO=90 RELAY=OFF STEPPER=0'' @ [NUL]"
    by (simp add: s'(2) I2C_BUF_def)
  have f: "sint (servoPos after_setup) = 90 \<and> sint (stepperPos after_setup) = 0 \<and>
      \<not> relayState after_setup"
    by (simp add: after_setup_def)
  show ?thesis
    using a b c d[of pin] s'(1) e f nb by blast
qed

text \<open>
  C10. One iteration of the sensor task leaves temperature, humidity and light level as
  they were when either DHT reading is NaN, although the light level was read; if any of
  the three fields differs afterwards, both readings were valid and all three fields hold
  the values just read. The clap timestamp is never touched.
\<close>

theorem SensorTask_frame:
  "(isnan h \<or> isnan t \<longrightarrow>
      temp (SensorTask isnan h t p d) = temp d \<and> hum (SensorTask isnan h t p d) = hum d \<and>
      photo (SensorTask isnan h t p d) = photo d) \<and>
   (temp (SensorTask isnan h t p d) \<noteq> temp d \<or> hum (SensorTask isnan h t p d) \<noteq> hum d \<or>
    photo (SensorTask isnan h t p d) \<noteq> photo d \<longrightarrow>
      \<not> isnan h \<and> \<not> isnan t \<and>
      temp (SensorTask isnan h t p d) = t \<and> hum (SensorTask isnan h t p d) = h \<and>
      photo (SensorTask isnan h t p d) = p) \<and>
   lastClapMs (SensorTask isnan h t p d) = lastClapMs d"
  by (simp add: SensorTask_def)

theorem SensorTask_frame_witness:
  "((\<lambda>x. x = None) (Some (45 :: int)) \<or> (\<lambda>x. x = None) (None :: int option)) \<and>
   photo (SensorTask (\<lambda>x. x = None) (Some 45) None 900
      \<lparr>temp = Some (21 :: int), hum = Some 40, photo = 512, lastClapMs = 0\<rparr>) = 512 \<and>
   temp (SensorTask (\<lambda>x. x = None) (Some 45) None 900
      \<lparr>temp = Some (21 :: int), hum = Some 40, photo = 512, lastClapMs = 0\<rparr>) = Some 21 \<and>
   photo (SensorTask (\<lambda>x. x = None) (Some 45) (Some 22) 900
      \<lparr>temp = Some (21 :: int), hum = Some 40, photo = 512, lastClapMs = 0\<rparr>) \<noteq> 512 \<and>
   temp (SensorTask (\<lambda>x. x = None) (Some 45) (Some 22) 900
      \<lparr>temp = Some (21 :: int), hum = Some 40, photo = 512, lastClapMs = 0\<rparr>) = Some 22"
proof -
  have n: "(\<lambda>x. x = None) (Some (45 :: int)) \<or> (\<lambda>x. x = None) (None :: int option)"
    by simp
  have c: "photo (SensorTask (\<lambda>x. x = None) (Some (45 :: int)) (Some 22) 900
      \<lparr>temp = Some (21 :: int), hum = Some 40, photo = 512, lastClapMs = 0\<rparr>) \<noteq> 512"
    by (simp add: SensorTask_def)
  from SensorTask_frame[of "\<lambda>x. x = None" "Some (45 :: int)" None 900
      "\<lparr>temp = Some 21, hum = Some 40, photo = 512, lastClapMs = 0\<rparr>"] n
  have 1: "photo (SensorTask (\<lambda>x. x = None) (Some 45) None 900
      \<lparr>temp = Some (21 :: int), hum = Some 40, photo = 512, lastClapMs = 0\<rparr>) = 512"
    "temp (SensorTask (\<lambda>x. x = None) (Some 45) None 900
      \<lparr>temp = Some (21 :: int), hum = Some 40, photo = 512, lastClapMs = 0\<rparr>) = Some 21"
    by simp_all
  from SensorTask_frame[of "\<lambda>x. x = None" "Some (45 :: int)" "Some 22" 900
      "\<lparr>temp = Some 21, hum = Some 40, photo = 512, lastClapMs = 0\<rparr>"] c
  have 2: "temp (SensorTask (\<lambda>x. x = None) (Some 45) (Some 22) 900
      \<lparr>temp = Some (21 :: int), hum = Some 40, photo = 512, lastClapMs = 0\<rparr>) = Some 22"
    by simp
  from n 1 c 2 show ?thesis by blast
qed

end
